theory Spec2Isabelle
  imports Main "HOL-Library.Word"
begin

unbundle bit_operations_syntax

section \<open>The WatSON wire format: type markers and sizes (watson.h)\<close>

text \<open>
  Fixed-width integers of the source are words. An \<open>enum class\<close> over \<open>uint8_t\<close> whose
  values are only ever produced by \<open>static_cast\<close> from a masked byte (\<open>Ngrdnt_type\<close>) is the
  byte itself, with one constant per enumerator; \<open>Size_type\<close>, whose four enumerators are
  all the values a two-bit field can take, is a datatype.
\<close>

type_synonym uint8_t = "8 word"
type_synonym uint16_t = "16 word"
type_synonym uint32_t = "32 word"
type_synonym uint64_t = "64 word"
type_synonym int32_t = "32 word"
type_synonym int64_t = "64 word"
type_synonym double = "64 word"

datatype Size_type = k_zero | k_one | k_two | k_eight

fun Size_type_val :: "Size_type \<Rightarrow> uint8_t" where
  "Size_type_val k_zero = 0x00"
| "Size_type_val k_one = 0x01"
| "Size_type_val k_two = 0x02"
| "Size_type_val k_eight = 0x03"

definition Size_type_cast :: "uint8_t \<Rightarrow> Size_type" where
  "Size_type_cast b =
     (if b = 0x00 then k_zero else if b = 0x01 then k_one else if b = 0x02 then k_two else k_eight)"

type_synonym Ngrdnt_type = uint8_t

definition k_null :: Ngrdnt_type where "k_null = 0x3F"
definition k_true :: Ngrdnt_type where "k_true = 0x31"
definition k_false :: Ngrdnt_type where "k_false = 0x30"
definition k_flags :: Ngrdnt_type where "k_flags = 0x22"
definition k_float :: Ngrdnt_type where "k_float = 0x24"
definition k_int32 :: Ngrdnt_type where "k_int32 = 0x29"
definition k_int64 :: Ngrdnt_type where "k_int64 = 0x2C"
definition k_uint64 :: Ngrdnt_type where "k_uint64 = 0x35"
definition k_string :: Ngrdnt_type where "k_string = 0x33"
definition k_library :: Ngrdnt_type where "k_library = 0x0C"
definition k_container :: Ngrdnt_type where "k_container = 0x03"
definition k_zip :: Ngrdnt_type where "k_zip = 0x1A"
definition k_map :: Ngrdnt_type where "k_map = 0x0D"
definition k_binary :: Ngrdnt_type where "k_binary = 0x02"

lemmas Ngrdnt_type_defs =
  k_null_def k_true_def k_false_def k_flags_def k_float_def k_int32_def k_int64_def
  k_uint64_def k_string_def k_library_def k_container_def k_zip_def k_map_def k_binary_def

definition size_type :: "uint8_t \<Rightarrow> Size_type" where
  "size_type t = Size_type_cast (drop_bit 6 (t AND 0xC0))"

definition size_size :: "Size_type \<Rightarrow> uint64_t" where
  "size_size t = (if k_eight = t then 8 else ucast (Size_type_val t))"

definition size_type_necessary :: "uint64_t \<Rightarrow> Size_type" where
  "size_type_necessary data_size =
     (if data_size = 0 then k_zero
      else if data_size < 0xFE then k_one
      else if data_size < 0xFFFE then k_two
      else k_eight)"

definition ngrdnt_header_size_st :: "Size_type \<Rightarrow> uint64_t" where
  "ngrdnt_header_size_st st = size_size st + 1"

definition ngrdnt_header_size :: "uint8_t \<Rightarrow> uint64_t" where
  "ngrdnt_header_size t = ngrdnt_header_size_st (size_type t)"

definition ngrdnt_type :: "uint8_t \<Rightarrow> Ngrdnt_type" where
  "ngrdnt_type t = t AND 0x3F"

definition type_marker :: "Size_type \<Rightarrow> Ngrdnt_type \<Rightarrow> uint8_t" where
  "type_marker st it = push_bit 6 (Size_type_val st) OR it"

section \<open>Memory and errors\<close>

text \<open>
  An \<open>Ngrdnt\<close> holds a pointer \<open>data_\<close> to the first byte of a record. The model of an
  \<open>Ngrdnt\<close> is the list of the bytes that may be read through that pointer (the buffer from
  \<open>data_\<close> to its end); \<open>Ngrdnt::Ptr\<close> is modelled by the value it points to, and the
  \<open>parent_\<close> pointer, which no function below reads, is left out. A read past the end of the
  buffer and an index past the end of a \<open>std::vector\<close> are undefined behaviour in the
  source: the model returns \<open>Out_of_bounds\<close> there. A failed \<open>assert\<close> is
  \<open>Assert_failed\<close>, a signed loop counter running past \<open>INT_MAX\<close> is \<open>Int_overflow\<close>.
  Multi-byte loads and stores through \<open>reinterpret_cast\<close> and \<open>memcpy\<close> are those of a
  little-endian host. Buffers are shorter than \<open>2 ^ 64\<close> bytes.
\<close>

datatype error = Out_of_bounds | Assert_failed | Int_overflow

type_synonym Ngrdnt = "uint8_t list"

definition read_bytes :: "uint8_t list \<Rightarrow> nat \<Rightarrow> nat \<Rightarrow> error + uint8_t list" where
  "read_bytes d off n =
     (if off + n \<le> length d then Inr (take n (drop off d)) else Inl Out_of_bounds)"

definition byte_at :: "uint8_t list \<Rightarrow> nat \<Rightarrow> error + uint8_t" where
  "byte_at d off = (if off < length d then Inr (d ! off) else Inl Out_of_bounds)"

fun load_le :: "uint8_t list \<Rightarrow> 'a::len word" where
  "load_le [] = 0"
| "load_le (b # bs) = ucast b OR push_bit 8 (load_le bs)"

fun store_le :: "nat \<Rightarrow> 'a::len word \<Rightarrow> uint8_t list" where
  "store_le 0 w = []"
| "store_le (Suc n) w = ucast w # store_le n (drop_bit 8 w)"

section \<open>Ngrdnt (watson.cpp)\<close>

definition Ngrdnt_type_marker :: "Ngrdnt \<Rightarrow> error + uint8_t" where
  "Ngrdnt_type_marker d = byte_at d 0"

definition Ngrdnt_size :: "Ngrdnt \<Rightarrow> error + uint64_t" where
  "Ngrdnt_size d =
     (case Ngrdnt_type_marker d of
        Inl e \<Rightarrow> Inl e
      | Inr t \<Rightarrow>
          (case size_type t of
             k_zero \<Rightarrow> Inr 1
           | k_one \<Rightarrow>
               (case byte_at d 1 of Inl e \<Rightarrow> Inl e | Inr b \<Rightarrow> Inr (ucast b))
           | k_two \<Rightarrow>
               (case read_bytes d 1 2 of
                  Inl e \<Rightarrow> Inl e
                | Inr bs \<Rightarrow> Inr (ucast (load_le bs :: uint16_t)))
           | k_eight \<Rightarrow>
               (case read_bytes d 1 8 of
                  Inl e \<Rightarrow> Inl e
                | Inr bs \<Rightarrow> Inr (load_le bs))))"

text \<open>\<open>Ngrdnt::Ngrdnt()\<close> and \<open>k_not_found\<close>: one byte, the marker of a null.\<close>

definition Ngrdnt_make :: Ngrdnt where
  "Ngrdnt_make = [type_marker k_zero k_null]"

definition k_not_found :: Ngrdnt where
  "k_not_found = Ngrdnt_make"

text \<open>
  \<open>Ngrdnt::temp(ptr)\<close> views the buffer from \<open>ptr\<close> on: \<open>drop ptr d\<close>.
  \<open>Ngrdnt::clone\<close> (the copy constructor) copies \<open>size()\<close> bytes of it.
\<close>

definition Ngrdnt_clone :: "Ngrdnt \<Rightarrow> error + Ngrdnt" where
  "Ngrdnt_clone o' =
     (case Ngrdnt_size o' of
        Inl e \<Rightarrow> Inl e
      | Inr sz \<Rightarrow> read_bytes o' 0 (unat sz))"

text \<open>
  \<open>build_ngrdnt<IT>(data_size, &current)\<close> allocates \<open>full_size\<close> bytes and writes the
  header; the model returns the header, and the caller appends the \<open>data_size\<close> bytes it
  writes at \<open>current\<close>.
\<close>

definition build_ngrdnt :: "Ngrdnt_type \<Rightarrow> uint64_t \<Rightarrow> uint8_t list" where
  "build_ngrdnt IT data_size =
     (let st = size_type_necessary data_size;
          header_size = ngrdnt_header_size_st st;
          full_size = data_size + header_size
      in type_marker st IT #
         (if 0 < data_size then store_le (unat (size_size st)) full_size else []))"

definition copy_to_ngrdnt :: "Ngrdnt_type \<Rightarrow> uint8_t list \<Rightarrow> Ngrdnt" where
  "copy_to_ngrdnt IT data = build_ngrdnt IT (of_nat (length data)) @ data"

definition new_ngrdnt_string :: "string \<Rightarrow> Ngrdnt" where
  "new_ngrdnt_string val = copy_to_ngrdnt k_string (map of_char val)"

definition new_ngrdnt_bool :: "bool \<Rightarrow> Ngrdnt" where
  "new_ngrdnt_bool val = (if val then copy_to_ngrdnt k_true [] else copy_to_ngrdnt k_false [])"

definition new_ngrdnt_int32 :: "int32_t \<Rightarrow> Ngrdnt" where
  "new_ngrdnt_int32 val = copy_to_ngrdnt k_int32 (store_le 4 val)"

definition new_ngrdnt_int64 :: "int64_t \<Rightarrow> Ngrdnt" where
  "new_ngrdnt_int64 val = copy_to_ngrdnt k_int64 (store_le 8 val)"

definition new_ngrdnt_uint64 :: "uint64_t \<Rightarrow> Ngrdnt" where
  "new_ngrdnt_uint64 val = copy_to_ngrdnt k_uint64 (store_le 8 val)"

text \<open>
  Signed integers are the words of their two's complement bits (\<open>sint\<close> reads them); a
  \<open>double\<close> is the word of its 64 bits (IEEE 754), so \<open>0.0\<close> is the word \<open>0\<close>.
\<close>

definition new_ngrdnt_double :: "double \<Rightarrow> Ngrdnt" where
  "new_ngrdnt_double val = copy_to_ngrdnt k_float (store_le 8 val)"

text \<open>\<open>new_ngrdnt(const std::vector<bool>&)\<close>: the loop body, the loop, the function.\<close>

definition set_flag :: "uint8_t list \<Rightarrow> nat \<Rightarrow> error + uint8_t list" where
  "set_flag ptr h =
     (let offset = (of_nat (h mod 8) :: uint8_t);
          indx = (of_nat (drop_bit 3 h) :: uint8_t);
          flag = (1 :: uint8_t)
      in if unat indx < length ptr
         then Inr (ptr[unat indx := (ptr ! unat indx) OR push_bit (unat offset) flag])
         else Inl Out_of_bounds)"

fun flags_loop :: "bool list \<Rightarrow> nat \<Rightarrow> uint8_t list \<Rightarrow> error + uint8_t list" where
  "flags_loop [] h ptr = Inr ptr"
| "flags_loop (b # bs) h ptr =
     (if b then
        (case set_flag ptr h of
           Inl e \<Rightarrow> Inl e
         | Inr ptr' \<Rightarrow> flags_loop bs (Suc h) ptr')
      else flags_loop bs (Suc h) ptr)"

definition INT_MAX :: int where
  "INT_MAX = 2147483647"

definition new_ngrdnt_flags :: "bool list \<Rightarrow> error + Ngrdnt" where
  "new_ngrdnt_flags val =
     (let data_size = (length val div 8) + (if length val mod 8 = 0 then 0 else 1)
      in if INT_MAX < int (length val) then Inl Int_overflow
         else (case flags_loop val 0 (replicate data_size 0) of
                 Inl e \<Rightarrow> Inl e
               | Inr ptr \<Rightarrow> Inr (copy_to_ngrdnt k_flags ptr)))"

section \<open>Decoders of simple values\<close>

definition is_null :: "Ngrdnt \<Rightarrow> error + bool" where
  "is_null val =
     (case Ngrdnt_type_marker val of
        Inl e \<Rightarrow> Inl e
      | Inr t \<Rightarrow> Inr (ngrdnt_type t = k_null))"

text \<open>
  \<open>ngrdnt_data<NT, IT>\<close> returns a pointer into the record or \<open>nullptr\<close>: the model
  returns the offset of the pointer, or \<open>None\<close>. The callers dereference it as an \<open>NT\<close>,
  which reads \<open>sizeof(NT)\<close> bytes there.
\<close>

definition ngrdnt_data :: "Ngrdnt_type \<Rightarrow> Ngrdnt \<Rightarrow> error + nat option" where
  "ngrdnt_data IT val =
     (case Ngrdnt_type_marker val of
        Inl e \<Rightarrow> Inl e
      | Inr t \<Rightarrow>
          if IT = ngrdnt_type t then Inr (Some (unat (ngrdnt_header_size t))) else Inr None)"

definition deref :: "Ngrdnt \<Rightarrow> nat \<Rightarrow> nat option \<Rightarrow> error + 'a::len word" where
  "deref val sizeof_NT result =
     (case result of
        None \<Rightarrow> Inr 0
      | Some off \<Rightarrow>
          (case read_bytes val off sizeof_NT of
             Inl e \<Rightarrow> Inl e
           | Inr bs \<Rightarrow> Inr (load_le bs)))"

definition to_double :: "Ngrdnt \<Rightarrow> error + double" where
  "to_double val =
     (case ngrdnt_data k_float val of Inl e \<Rightarrow> Inl e | Inr result \<Rightarrow> deref val 8 result)"

definition to_int32 :: "Ngrdnt \<Rightarrow> error + int32_t" where
  "to_int32 val =
     (case ngrdnt_data k_int32 val of Inl e \<Rightarrow> Inl e | Inr result \<Rightarrow> deref val 4 result)"

definition to_int64 :: "Ngrdnt \<Rightarrow> error + int64_t" where
  "to_int64 val =
     (case ngrdnt_data k_int64 val of Inl e \<Rightarrow> Inl e | Inr result \<Rightarrow> deref val 8 result)"

definition to_uint64 :: "Ngrdnt \<Rightarrow> error + uint64_t" where
  "to_uint64 val =
     (case ngrdnt_data k_uint64 val of Inl e \<Rightarrow> Inl e | Inr result \<Rightarrow> deref val 8 result)"

text \<open>\<open>to_flags\<close>: the loop body, then the function; the loop fills \<open>result[h]\<close> for
  \<open>h = 0, ..., flag_count - 1\<close> in turn.\<close>

definition flag_at :: "Ngrdnt \<Rightarrow> uint64_t \<Rightarrow> nat \<Rightarrow> error + bool" where
  "flag_at val header_size h =
     (let offset = (of_nat (h mod 8) :: uint8_t);
          indx = (of_nat (drop_bit 3 h) :: uint8_t);
          flag = (push_bit (unat offset) 1 :: uint8_t)
      in case byte_at val (unat (ucast indx + header_size)) of
           Inl e \<Rightarrow> Inl e
         | Inr b \<Rightarrow> Inr (b AND flag \<noteq> 0))"

fun collect :: "('a \<Rightarrow> error + 'b) \<Rightarrow> 'a list \<Rightarrow> error + 'b list" where
  "collect f [] = Inr []"
| "collect f (x # xs) =
     (case f x of
        Inl e \<Rightarrow> Inl e
      | Inr y \<Rightarrow> (case collect f xs of Inl e \<Rightarrow> Inl e | Inr ys \<Rightarrow> Inr (y # ys)))"

definition to_flags :: "Ngrdnt \<Rightarrow> error + bool list" where
  "to_flags val =
     (case Ngrdnt_type_marker val of
        Inl e \<Rightarrow> Inl e
      | Inr t \<Rightarrow>
          (case Ngrdnt_size val of
             Inl e \<Rightarrow> Inl e
           | Inr sz \<Rightarrow>
               (let header_size = ngrdnt_header_size t;
                    flag_count = (sz - header_size) * 8
                in if INT_MAX < uint flag_count then Inl Int_overflow
                   else collect (flag_at val header_size) [0 ..< unat flag_count])))"

text \<open>\<open>std::to_string\<close> of an integer: decimal digits, with a minus sign.\<close>

fun digits10 :: "nat \<Rightarrow> string" where
  "digits10 n =
     (if n < 10 then [char_of (48 + n)] else digits10 (n div 10) @ [char_of (48 + n mod 10)])"

definition std_to_string :: "int \<Rightarrow> string" where
  "std_to_string i = (if i < 0 then CHR ''-'' # digits10 (nat (- i)) else digits10 (nat i))"

text \<open>
  \<open>to_string\<close>. \<open>std::to_string(double)\<close> formats a floating-point number and is a
  parameter, \<open>fmt\<close>, on the bits of the double.
\<close>

definition to_string :: "(double \<Rightarrow> string) \<Rightarrow> Ngrdnt \<Rightarrow> error + string" where
  "to_string fmt val =
     (case Ngrdnt_type_marker val of
        Inl e \<Rightarrow> Inl e
      | Inr t \<Rightarrow>
          if ngrdnt_type t = k_null then Inr ''null''
          else if ngrdnt_type t = k_true then Inr ''true''
          else if ngrdnt_type t = k_false then Inr ''false''
          else if ngrdnt_type t = k_float then
            (case to_double val of Inl e \<Rightarrow> Inl e | Inr x \<Rightarrow> Inr (fmt x))
          else if ngrdnt_type t = k_int32 then
            (case to_int32 val of Inl e \<Rightarrow> Inl e | Inr x \<Rightarrow> Inr (std_to_string (sint x)))
          else if ngrdnt_type t = k_int64 then
            (case to_int64 val of Inl e \<Rightarrow> Inl e | Inr x \<Rightarrow> Inr (std_to_string (sint x)))
          else if ngrdnt_type t = k_uint64 then
            (case to_uint64 val of Inl e \<Rightarrow> Inl e | Inr x \<Rightarrow> Inr (std_to_string (uint x)))
          else if ngrdnt_type t = k_string then
            (case Ngrdnt_size val of
               Inl e \<Rightarrow> Inl e
             | Inr sz \<Rightarrow>
                 (let header_size = ngrdnt_header_size t
                  in case read_bytes val (unat header_size) (unat (sz - header_size)) of
                       Inl e \<Rightarrow> Inl e
                     | Inr bs \<Rightarrow> Inr (map (\<lambda>b. char_of (unat b)) bs)))
          else Inr [])"

section \<open>Container and Library\<close>

text \<open>
  \<open>Basic_container<T, ETL>\<close> keeps a \<open>std::vector<T>\<close>: a list. \<open>Container\<close> has
  \<open>T = Ngrdnt::Ptr\<close> and the identity for \<open>ETL\<close>; \<open>Library\<close> has \<open>T = std::string\<close>
  and \<open>to_string\<close>. The decoding loop advances by the size of the child it has just
  read, which can be \<open>0\<close>: it need not terminate, and \<open>None\<close> is the run that does not.
\<close>

type_synonym Container = "Ngrdnt list"
type_synonym Library = "string list"

partial_function (option) Basic_container_loop ::
  "(Ngrdnt \<Rightarrow> error + 'a) \<Rightarrow> Ngrdnt \<Rightarrow> nat \<Rightarrow> nat \<Rightarrow> 'a list \<Rightarrow> (error + 'a list) option"
where
  "Basic_container_loop etl raw end' ptr children =
     (if end' > ptr then
        (case Ngrdnt_clone (drop ptr raw) of
           Inl e \<Rightarrow> Some (Inl e)
         | Inr c \<Rightarrow>
             (case etl c of
                Inl e \<Rightarrow> Some (Inl e)
              | Inr x \<Rightarrow>
                  (case Ngrdnt_size (drop ptr raw) of
                     Inl e \<Rightarrow> Some (Inl e)
                   | Inr sz \<Rightarrow>
                       Basic_container_loop etl raw end' (ptr + unat sz) (children @ [x]))))
      else Some (Inr children))"

declare Basic_container_loop.simps [code]

definition Basic_container_of_Ngrdnt ::
  "(Ngrdnt \<Rightarrow> error + 'a) \<Rightarrow> Ngrdnt \<Rightarrow> (error + 'a list) option"
where
  "Basic_container_of_Ngrdnt etl raw =
     (case Ngrdnt_type_marker raw of
        Inl e \<Rightarrow> Some (Inl e)
      | Inr t \<Rightarrow>
          (case Ngrdnt_size raw of
             Inl e \<Rightarrow> Some (Inl e)
           | Inr sz \<Rightarrow>
               Basic_container_loop etl raw (unat sz) (unat (size_size (size_type t) + 1)) []))"

definition Container_of_Ngrdnt :: "Ngrdnt \<Rightarrow> (error + Container) option" where
  "Container_of_Ngrdnt raw = Basic_container_of_Ngrdnt (\<lambda>i. Inr i) raw"

definition Library_of_Ngrdnt :: "(double \<Rightarrow> string) \<Rightarrow> Ngrdnt \<Rightarrow> (error + Library) option" where
  "Library_of_Ngrdnt fmt raw = Basic_container_of_Ngrdnt (to_string fmt) raw"

text \<open>\<open>Basic_container::operator[]\<close> is \<open>children()[indx]\<close> on the vector, unchecked.\<close>

definition Basic_container_index :: "'a list \<Rightarrow> uint32_t \<Rightarrow> error + 'a" where
  "Basic_container_index children indx =
     (if unat indx < length children then Inr (children ! unat indx) else Inl Out_of_bounds)"

text \<open>
  \<open>new_ngrdnt(const Container&)\<close> and \<open>new_ngrdnt(const Library&)\<close>: the sum of the
  children's sizes, the header, then the copy of \<open>size()\<close> bytes of each child behind it.
  \<open>current\<close> and \<open>end\<close> are offsets from the end of the header.
\<close>

fun sum_sizes :: "Ngrdnt list \<Rightarrow> uint64_t \<Rightarrow> error + uint64_t" where
  "sum_sizes [] sz = Inr sz"
| "sum_sizes (ing # rest) sz =
     (case Ngrdnt_size ing of
        Inl e \<Rightarrow> Inl e
      | Inr n \<Rightarrow> sum_sizes rest (sz + n))"

fun copy_children :: "nat \<Rightarrow> nat \<Rightarrow> Ngrdnt list \<Rightarrow> error + uint8_t list" where
  "copy_children end' current [] = Inr []"
| "copy_children end' current (ing # rest) =
     (if \<not> end' > current then Inl Assert_failed
      else
        (case Ngrdnt_size ing of
           Inl e \<Rightarrow> Inl e
         | Inr n \<Rightarrow>
             (case read_bytes ing 0 (unat n) of
                Inl e \<Rightarrow> Inl e
              | Inr bs \<Rightarrow>
                  (case copy_children end' (current + unat n) rest of
                     Inl e \<Rightarrow> Inl e
                   | Inr others \<Rightarrow> Inr (bs @ others)))))"

definition new_ngrdnt_children :: "Ngrdnt_type \<Rightarrow> Ngrdnt list \<Rightarrow> error + Ngrdnt" where
  "new_ngrdnt_children IT children =
     (case sum_sizes children 0 of
        Inl e \<Rightarrow> Inl e
      | Inr sz \<Rightarrow>
          (case copy_children (unat sz) 0 children of
             Inl e \<Rightarrow> Inl e
           | Inr body \<Rightarrow> Inr (build_ngrdnt IT sz @ body)))"

definition new_ngrdnt_Container :: "Container \<Rightarrow> error + Ngrdnt" where
  "new_ngrdnt_Container val = new_ngrdnt_children k_container val"

definition new_ngrdnt_Library :: "Library \<Rightarrow> error + Ngrdnt" where
  "new_ngrdnt_Library val = new_ngrdnt_children k_library (map new_ngrdnt_string val)"

section \<open>Map\<close>

text \<open>
  \<open>Map::Children\<close> is a \<open>std::map<uint32_t, Ngrdnt::Ptr>\<close>: a map. \<open>std::map::insert\<close>
  leaves the map as it is when the key is there already.
\<close>

type_synonym Map = "uint32_t \<rightharpoonup> Ngrdnt"

definition std_map_insert :: "('k \<rightharpoonup> 'v) \<Rightarrow> 'k \<Rightarrow> 'v \<Rightarrow> ('k \<rightharpoonup> 'v)" where
  "std_map_insert m k v = (case m k of None \<Rightarrow> m(k \<mapsto> v) | Some _ \<Rightarrow> m)"

function Map_loop :: "Ngrdnt \<Rightarrow> nat \<Rightarrow> nat \<Rightarrow> Map \<Rightarrow> error + Map" where
  "Map_loop raw end' ptr children =
     (if end' > ptr then
        (case read_bytes raw ptr 4 of
           Inl e \<Rightarrow> Inl e
         | Inr kb \<Rightarrow>
             (case Ngrdnt_clone (drop (ptr + 4) raw) of
                Inl e \<Rightarrow> Inl e
              | Inr c \<Rightarrow>
                  (case Ngrdnt_size (drop (ptr + 4) raw) of
                     Inl e \<Rightarrow> Inl e
                   | Inr sz \<Rightarrow>
                       Map_loop raw end' (ptr + 4 + unat sz)
                         (std_map_insert children (load_le kb) c))))
      else Inr children)"
  by pat_completeness auto
termination
  by (relation "measure (\<lambda>(raw, end', ptr, children). end' - ptr)") auto

declare Map_loop.simps [simp del]

definition Map_of_Ngrdnt :: "Ngrdnt \<Rightarrow> error + Map" where
  "Map_of_Ngrdnt raw =
     (case Ngrdnt_type_marker raw of
        Inl e \<Rightarrow> Inl e
      | Inr t \<Rightarrow>
          (case Ngrdnt_size raw of
             Inl e \<Rightarrow> Inl e
           | Inr sz \<Rightarrow>
               (let header_size = ngrdnt_header_size t
                in if \<not> unat sz \<ge> unat header_size then Inl Assert_failed
                   else Map_loop raw (unat sz) (unat header_size) Map.empty)))"

definition Map_index :: "Map \<Rightarrow> uint32_t \<Rightarrow> Ngrdnt" where
  "Map_index children key = (case children key of None \<Rightarrow> k_not_found | Some v \<Rightarrow> v)"

section \<open>Compressed\<close>

text \<open>
  Snappy is outside the repository and a parameter: \<open>RawCompress\<close> gives the compressed
  bytes of its input (it writes at most \<open>MaxCompressedLength\<close> bytes, the size of the
  scratch buffer, which is not modelled), \<open>GetUncompressedLength\<close> and
  \<open>RawUncompress\<close> fail with \<open>None\<close>. A \<open>Compressed\<close> is its child \<open>Ngrdnt\<close>.
\<close>

record snappy =
  RawCompress :: "uint8_t list \<Rightarrow> uint8_t list"
  GetUncompressedLength :: "uint8_t list \<Rightarrow> nat option"
  RawUncompress :: "uint8_t list \<Rightarrow> uint8_t list option"

type_synonym Compressed = Ngrdnt

definition Compressed_of_Ngrdnt :: "snappy \<Rightarrow> Ngrdnt \<Rightarrow> error + Compressed" where
  "Compressed_of_Ngrdnt sn raw =
     (case Ngrdnt_type_marker raw of
        Inl e \<Rightarrow> Inl e
      | Inr t \<Rightarrow>
          (case Ngrdnt_size raw of
             Inl e \<Rightarrow> Inl e
           | Inr sz \<Rightarrow>
               (let header_size = ngrdnt_header_size t;
                    data_size = sz - header_size
                in case read_bytes raw (unat header_size) (unat data_size) of
                     Inl e \<Rightarrow> Inl e
                   | Inr data \<Rightarrow>
                       (case GetUncompressedLength sn data of
                          None \<Rightarrow> Inl Assert_failed
                        | Some output_size \<Rightarrow>
                            (case RawUncompress sn data of
                               None \<Rightarrow> Inl Assert_failed
                             | Some output \<Rightarrow> Inr output)))))"

definition new_ngrdnt_Compressed :: "snappy \<Rightarrow> Compressed \<Rightarrow> error + Ngrdnt" where
  "new_ngrdnt_Compressed sn val =
     (case Ngrdnt_size val of
        Inl e \<Rightarrow> Inl e
      | Inr n \<Rightarrow>
          (case read_bytes val 0 (unat n) of
             Inl e \<Rightarrow> Inl e
           | Inr bytes \<Rightarrow>
               (let buffer = RawCompress sn bytes;
                    sz = (of_nat (length buffer) :: uint64_t)
                in Inr (build_ngrdnt k_zip sz @ buffer))))"

section \<open>Glossary and Recipe\<close>

record Glossary =
  names :: "string list"
  index :: "string \<rightharpoonup> uint32_t"

definition xlate_names :: "Glossary \<Rightarrow> string list \<Rightarrow> uint32_t list" where
  "xlate_names g ns = map (\<lambda>name. case index g name of Some i \<Rightarrow> i | None \<Rightarrow> 0) ns"

definition xlate_keys :: "Glossary \<Rightarrow> uint32_t list \<Rightarrow> string list" where
  "xlate_keys g keys =
     map (\<lambda>key. if unat key < length (names g) then names g ! unat key else []) keys"

record Recipe =
  container :: Container
  glossary :: Glossary

text \<open>
  \<open>Recipe::ngrdnt\<close>: the first step indexes the root container; the loop consumes the
  remaining steps. A \<open>k_zip\<close> value is replaced by its child without consuming a step, so
  the loop is partial as well.
\<close>

partial_function (option) ngrdnt_loop ::
  "snappy \<Rightarrow> uint32_t list \<Rightarrow> Ngrdnt \<Rightarrow> (error + Ngrdnt) option"
where
  "ngrdnt_loop sn iter retval =
     (case iter of
        [] \<Rightarrow> Some (Inr retval)
      | step # rest \<Rightarrow>
          (case Ngrdnt_type_marker retval of
             Inl e \<Rightarrow> Some (Inl e)
           | Inr t \<Rightarrow>
               if ngrdnt_type t = k_container then
                 (case Container_of_Ngrdnt retval of
                    None \<Rightarrow> None
                  | Some (Inl e) \<Rightarrow> Some (Inl e)
                  | Some (Inr tmp) \<Rightarrow>
                      if unat step \<ge> length tmp then Some (Inr k_not_found)
                      else
                        (case Basic_container_index tmp step of
                           Inl e \<Rightarrow> Some (Inl e)
                         | Inr r \<Rightarrow> ngrdnt_loop sn rest r))
               else if ngrdnt_type t = k_map then
                 (case Map_of_Ngrdnt retval of
                    Inl e \<Rightarrow> Some (Inl e)
                  | Inr m \<Rightarrow> ngrdnt_loop sn rest (Map_index m step))
               else if ngrdnt_type t = k_zip then
                 (case Compressed_of_Ngrdnt sn retval of
                    Inl e \<Rightarrow> Some (Inl e)
                  | Inr child \<Rightarrow> ngrdnt_loop sn iter child)
               else Some (Inr k_not_found)))"

declare ngrdnt_loop.simps [code]

definition Recipe_ngrdnt :: "snappy \<Rightarrow> Recipe \<Rightarrow> uint32_t list \<Rightarrow> (error + Ngrdnt) option" where
  "Recipe_ngrdnt sn r steps =
     (case steps of
        [] \<Rightarrow> Some (Inr k_not_found)
      | step # rest \<Rightarrow>
          (case Basic_container_index (container r) step of
             Inl e \<Rightarrow> Some (Inl e)
           | Inr retval \<Rightarrow> ngrdnt_loop sn rest retval))"

section \<open>Notions of the specification\<close>

text \<open>
  The value of a byte string read as a little-endian unsigned integer, and the number of
  length bytes of a size class, as the specification words them.
\<close>

fun le_uint :: "uint8_t list \<Rightarrow> nat" where
  "le_uint [] = 0"
| "le_uint (b # bs) = unat b + 256 * le_uint bs"

fun length_bytes :: "Size_type \<Rightarrow> nat" where
  "length_bytes k_zero = 0"
| "length_bytes k_one = 1"
| "length_bytes k_two = 2"
| "length_bytes k_eight = 8"

text \<open>
  The payload of a record: the bytes behind its header, up to \<open>size()\<close>. Its kind: the
  low six bits of its marker.
\<close>

definition Ngrdnt_payload :: "Ngrdnt \<Rightarrow> error + uint8_t list" where
  "Ngrdnt_payload val =
     (case Ngrdnt_type_marker val of
        Inl e \<Rightarrow> Inl e
      | Inr t \<Rightarrow>
          (case Ngrdnt_size val of
             Inl e \<Rightarrow> Inl e
           | Inr sz \<Rightarrow>
               read_bytes val (unat (ngrdnt_header_size t)) (unat (sz - ngrdnt_header_size t))))"

definition Ngrdnt_kind :: "Ngrdnt \<Rightarrow> error + Ngrdnt_type" where
  "Ngrdnt_kind val =
     (case Ngrdnt_type_marker val of Inl e \<Rightarrow> Inl e | Inr t \<Rightarrow> Inr (ngrdnt_type t))"

text \<open>
  A record that fills its buffer: \<open>size()\<close> is the length of the buffer. The payload of a
  map that holds the entries \<open>es\<close> in this order: for each entry the four bytes of the key,
  then the record of the value.
\<close>

definition whole_record :: "Ngrdnt \<Rightarrow> bool" where
  "whole_record v \<longleftrightarrow> length v < 2 ^ 64 \<and> Ngrdnt_size v = Inr (of_nat (length v))"

fun map_entries_bytes :: "(uint32_t \<times> Ngrdnt) list \<Rightarrow> uint8_t list" where
  "map_entries_bytes [] = []"
| "map_entries_bytes ((k, v) # es) = store_le 4 k @ v @ map_entries_bytes es"

text \<open>\<open>Map(raw)[key]\<close>, \<open>*Compressed(new_ngrdnt(Compressed(x)))\<close> and
  \<open>to_flags(new_ngrdnt(v))\<close>, the compositions the claims are about.\<close>

definition Map_of_Ngrdnt_at :: "Ngrdnt \<Rightarrow> uint32_t \<Rightarrow> error + Ngrdnt" where
  "Map_of_Ngrdnt_at raw key =
     (case Map_of_Ngrdnt raw of Inl e \<Rightarrow> Inl e | Inr m \<Rightarrow> Inr (Map_index m key))"

definition zip_round_trip :: "snappy \<Rightarrow> Ngrdnt \<Rightarrow> error + Ngrdnt" where
  "zip_round_trip sn x =
     (case new_ngrdnt_Compressed sn x of Inl e \<Rightarrow> Inl e | Inr z \<Rightarrow> Compressed_of_Ngrdnt sn z)"

definition flags_round_trip :: "bool list \<Rightarrow> error + bool list" where
  "flags_round_trip v =
     (case new_ngrdnt_flags v of Inl e \<Rightarrow> Inl e | Inr r \<Rightarrow> to_flags r)"

text \<open>
  A codec that stores its input unchanged: it meets the one property the claims ask of
  Snappy, that uncompressing a compressed buffer gives the buffer back.
\<close>

definition stored :: snappy where
  "stored =
     \<lparr>RawCompress = (\<lambda>b. b),
      GetUncompressedLength = (\<lambda>b. Some (length b)),
      RawUncompress = (\<lambda>b. Some b)\<rparr>"

definition snappy_round_trip :: "snappy \<Rightarrow> uint8_t list \<Rightarrow> bool" where
  "snappy_round_trip sn b \<longleftrightarrow>
     GetUncompressedLength sn (RawCompress sn b) = Some (length b) \<and>
     RawUncompress sn (RawCompress sn b) = Some b"

section \<open>Auxiliary facts\<close>

lemma size_size_simps [simp]:
  "size_size k_zero = 0" "size_size k_one = 1" "size_size k_two = 2" "size_size k_eight = 8"
  by (simp_all add: size_size_def)

lemma unat_size_size: "unat (size_size st) = length_bytes st"
  by (cases st) simp_all

lemma or_push_bit_8: "(ucast (b :: uint8_t) :: 'a::len word) OR push_bit 8 w = ucast b + push_bit 8 w"
  apply (rule disjunctive_add[symmetric])
  apply (auto simp: bit_simps dest: bit_imp_le_length)
  done

lemma load_le_of_nat: "(load_le bs :: 'a::len word) = of_nat (le_uint bs)"
proof (induction bs)
  case Nil
  show ?case by simp
next
  case (Cons b bs)
  have "(load_le (b # bs) :: 'a word) = ucast b + push_bit 8 (of_nat (le_uint bs))"
    by (simp add: or_push_bit_8 Cons.IH)
  also have "\<dots> = of_nat (unat b + 256 * le_uint bs)"
    by (simp add: push_bit_eq_mult ac_simps)
  finally show ?case by simp
qed

lemma le_uint_bound: "le_uint bs < 256 ^ length bs"
proof (induction bs)
  case Nil
  show ?case by simp
next
  case (Cons b bs)
  have "unat b < 256" using unsigned_less[of b, where ?'a = nat] by simp
  moreover have "le_uint bs + 1 \<le> 256 ^ length bs" using Cons.IH by simp
  then have "256 * (le_uint bs + 1) \<le> 256 * 256 ^ length bs" by (rule mult_le_mono2)
  ultimately show ?case by simp
qed

lemma ucast16_load_le:
  assumes "length bs = 2"
  shows "(ucast (load_le bs :: uint16_t) :: uint64_t) = of_nat (le_uint bs)"
proof -
  have "le_uint bs < 256 ^ 2" using le_uint_bound[of bs] assms by simp
  then have b: "le_uint bs < 65536" by simp
  have "unat (load_le bs :: uint16_t) = le_uint bs"
    using b by (simp add: load_le_of_nat unat_of_nat)
  then show ?thesis
    by (metis of_nat_unat)
qed

lemma size_type_eval [simp]:
  "size_type 0x4D = k_one" "size_type 0xB3 = k_two" "size_type 0xF3 = k_eight" "size_type 0x3F = k_zero"
  by (simp_all add: size_type_def Size_type_cast_def)

lemma ngrdnt_header_size_simps:
  "size_type t = k_zero \<Longrightarrow> ngrdnt_header_size t = 1"
  "size_type t = k_one \<Longrightarrow> ngrdnt_header_size t = 2"
  "size_type t = k_two \<Longrightarrow> ngrdnt_header_size t = 3"
  "size_type t = k_eight \<Longrightarrow> ngrdnt_header_size t = 9"
  by (simp_all add: ngrdnt_header_size_def ngrdnt_header_size_st_def)

lemma store_le_numeral:
  "store_le (numeral k) w = ucast w # store_le (pred_numeral k) (drop_bit 8 w)"
  by (simp add: numeral_eq_Suc)

lemma store_le_1: "store_le 1 w = [ucast w]"
  using store_le.simps(2)[of 0 w] by simp

lemma ngrdnt_type_eval:
  "ngrdnt_type 0x69 = k_int32" "ngrdnt_type 0x64 = k_float" "ngrdnt_type 0x6C = k_int64" "ngrdnt_type 0x75 = k_uint64"
  by (simp_all add: ngrdnt_type_def Ngrdnt_type_defs)

lemma load_le_store_le: "(load_le (store_le n w) :: 'a::len word) = take_bit (8 * n) w"
proof (induction n arbitrary: w)
  case 0
  show ?case by simp
next
  case (Suc n)
  show ?case
    apply (simp add: Suc.IH)
    apply (rule bit_eqI)
    apply (auto simp: bit_simps)
    done
qed

lemma load_le_store_le_4 [simp]: "(load_le (store_le 4 (k :: uint32_t)) :: uint32_t) = k"
  using load_le_store_le [of 4 k] by (simp add: take_bit_word_eq_self)

lemma length_store_le [simp]: "length (store_le n w) = n"
  by (induction n arbitrary: w) simp_all

lemma Ngrdnt_size_append:
  assumes "Ngrdnt_size v = Inr s"
  shows "Ngrdnt_size (v @ rest) = Inr s"
proof -
  from assms obtain t where t: "Ngrdnt_type_marker v = Inr t"
    by (auto simp: Ngrdnt_size_def split: sum.splits)
  then have v: "v \<noteq> []" by (auto simp: Ngrdnt_type_marker_def byte_at_def split: if_splits)
  then have t': "Ngrdnt_type_marker (v @ rest) = Inr t"
    using t by (cases v) (auto simp: Ngrdnt_type_marker_def byte_at_def)
  show ?thesis
    using assms t t'
    by (cases "size_type t")
       (auto simp: Ngrdnt_size_def byte_at_def read_bytes_def nth_append split: if_splits)
qed

lemma Ngrdnt_clone_append:
  assumes "whole_record v"
  shows "Ngrdnt_clone (v @ rest) = Inr v"
  using assms Ngrdnt_size_append [of v "of_nat (length v)" rest]
  by (simp add: whole_record_def Ngrdnt_clone_def read_bytes_def unat_of_nat)

lemma map_add_std_map_insert:
  "(f ++ std_map_insert m k v) = ((f(k \<mapsto> v)) ++ m)"
  by (rule ext) (auto simp: std_map_insert_def map_add_def split: option.splits)

lemma Map_loop_entries:
  assumes "list_all (\<lambda>e. whole_record (snd e)) es"
  shows "Map_loop (pre @ map_entries_bytes es) (length pre + length (map_entries_bytes es))
           (length pre) m = Inr (map_of es ++ m)"
  using assms
proof (induction es arbitrary: pre m)
  case Nil
  show ?case by (simp add: Map_loop.simps)
next
  case (Cons e es)
  obtain k v where e: "e = (k, v)" by (cases e)
  from Cons.prems e have wv: "whole_record v" and wes: "list_all (\<lambda>e. whole_record (snd e)) es"
    by simp_all
  let ?tl = "map_entries_bytes es"
  let ?raw = "pre @ store_le 4 k @ v @ ?tl"
  let ?end = "length pre + 4 + length v + length ?tl"
  let ?pre' = "pre @ store_le 4 k @ v"
  have key: "read_bytes ?raw (length pre) 4 = Inr (store_le 4 k)"
    by (simp add: read_bytes_def)
  have dr: "drop (length pre + 4) ?raw = v @ ?tl"
    by simp
  have sz: "Ngrdnt_size (v @ ?tl) = Inr (of_nat (length v))"
    using wv by (simp add: whole_record_def Ngrdnt_size_append)
  have cl: "Ngrdnt_clone (v @ ?tl) = Inr v"
    using wv by (rule Ngrdnt_clone_append)
  have un: "unat (of_nat (length v) :: uint64_t) = length v"
    using wv by (simp add: whole_record_def unat_of_nat)
  have "Map_loop ?raw ?end (length pre) m =
        Map_loop ?raw ?end (length pre + 4 + length v) (std_map_insert m k v)"
    by (subst Map_loop.simps) (simp add: key dr sz cl un)
  also have "\<dots> = Map_loop (?pre' @ ?tl) (length ?pre' + length ?tl) (length ?pre')
                      (std_map_insert m k v)"
    by (simp add: add.assoc)
  also have "\<dots> = Inr (map_of es ++ std_map_insert m k v)"
    by (rule Cons.IH [OF wes])
  also have "\<dots> = Inr (map_of (e # es) ++ m)"
    by (simp add: e map_add_std_map_insert)
  finally have step: "Map_loop ?raw ?end (length pre) m = Inr (map_of (e # es) ++ m)" .
  have "pre @ map_entries_bytes (e # es) = ?raw" by (simp add: e)
  moreover have "length pre + length (map_entries_bytes (e # es)) = ?end" by (simp add: e)
  ultimately show ?case using step by (simp only:)
qed

lemma load_le_store_le_ucast:
  "(load_le (store_le n (w :: 'a::len word)) :: 'b::len word) = ucast (take_bit (8 * n) w)"
proof (induction n arbitrary: w)
  case 0
  show ?case by simp
next
  case (Suc n)
  show ?case
    apply (simp add: Suc.IH)
    apply (rule bit_eqI)
    apply (auto simp: bit_simps)
    done
qed

lemma type_marker_split:
  assumes "IT AND 0xC0 = 0"
  shows "size_type (type_marker st IT) = st" and "ngrdnt_type (type_marker st IT) = IT"
proof -
  have a: "(push_bit 6 (Size_type_val st) OR IT) AND 0xC0 = push_bit 6 (Size_type_val st)"
    using assms by (cases st) (simp_all add: bit.conj_disj_distrib2)
  show "size_type (type_marker st IT) = st"
    unfolding size_type_def type_marker_def a
    by (cases st) (simp_all add: Size_type_cast_def)
  have "(0xC0 OR 0x3F :: uint8_t) = - 1" by simp
  then have "IT = IT AND (0xC0 OR 0x3F)" by (simp only: word_bw_same and.right_neutral)
  also have "\<dots> = IT AND 0x3F" unfolding bit.conj_disj_distrib using assms by simp
  finally have b: "IT AND 0x3F = IT" by simp
  show "ngrdnt_type (type_marker st IT) = IT"
    unfolding ngrdnt_type_def type_marker_def bit.conj_disj_distrib2 b
    by (cases st) simp_all
qed

lemma ucast8_of_nat:
  assumes "m < 256"
  shows "(ucast (ucast (of_nat m :: uint64_t) :: uint8_t) :: uint64_t) = of_nat m"
  using assms by (simp add: unsigned_of_nat take_bit_nat_eq_self)

lemma ucast16_of_nat:
  assumes "m < 65536"
  shows "(ucast (ucast (take_bit 16 (of_nat m :: uint64_t)) :: uint16_t) :: uint64_t) = of_nat m"
  using assms by (simp add: unsigned_of_nat take_bit_of_nat take_bit_nat_eq_self)

lemma unat_of_nat64: "n < 2 ^ 64 \<Longrightarrow> unat (of_nat n :: uint64_t) = n"
  by (simp add: unat_of_nat)

lemma of_nat64_eq_0:
  assumes "n < 2 ^ 64"
  shows "(of_nat n :: uint64_t) = 0 \<longleftrightarrow> n = 0"
proof
  assume "(of_nat n :: uint64_t) = 0"
  then have "unat (of_nat n :: uint64_t) = 0" by simp
  with assms show "n = 0" by (simp add: unat_of_nat64)
next
  assume "n = 0"
  then show "(of_nat n :: uint64_t) = 0" by simp
qed

lemma size_type_necessary_of_nat:
  assumes "n < 2 ^ 64"
  shows "size_type_necessary (of_nat n) =
           (if n = 0 then k_zero else if n < 254 then k_one else if n < 65534 then k_two else k_eight)"
  using assms of_nat64_eq_0 [OF assms]
  by (simp add: size_type_necessary_def word_less_nat_alt unat_of_nat64)

lemma store_le_2: "store_le 2 w = [ucast w, ucast (drop_bit 8 w)]"
  by (simp add: store_le_numeral store_le_1)

lemma build_ngrdnt_record:
  fixes c :: "uint8_t list"
  assumes IT: "IT AND 0xC0 = 0" and n9: "length c + 9 < 2 ^ 64" and bad: "length c \<noteq> 0xFFFD"
  defines "t \<equiv> type_marker (size_type_necessary (of_nat (length c))) IT"
  defines "hdr \<equiv> build_ngrdnt IT (of_nat (length c))"
  shows "Ngrdnt_type_marker (hdr @ c) = Inr t"
    and "length hdr = unat (ngrdnt_header_size t)"
    and "Ngrdnt_size (hdr @ c) = Inr (of_nat (length (hdr @ c)))"
proof -
  let ?n = "length c"
  let ?st = "size_type_necessary (of_nat ?n)"
  from n9 have n64: "?n < 2 ^ 64" by simp
  have st: "?st = (if ?n = 0 then k_zero else if ?n < 254 then k_one
                   else if ?n < 65534 then k_two else k_eight)"
    using n64 by (rule size_type_necessary_of_nat)
  have hdr: "hdr = t # (if 0 < ?n then store_le (unat (size_size ?st))
                          ((of_nat ?n :: uint64_t) + ngrdnt_header_size_st ?st) else [])"
    using of_nat64_eq_0 [OF n64]
    by (simp add: hdr_def t_def build_ngrdnt_def Let_def word_gt_0)
  show tm: "Ngrdnt_type_marker (hdr @ c) = Inr t"
    by (simp add: hdr Ngrdnt_type_marker_def byte_at_def)
  have sty: "size_type t = ?st"
    unfolding t_def using IT by (rule type_marker_split)
  show len: "length hdr = unat (ngrdnt_header_size t)"
    by (simp add: hdr ngrdnt_header_size_def ngrdnt_header_size_st_def sty st)
  consider (zero) "?n = 0" | (one) "0 < ?n" "?n < 254" | (two) "254 \<le> ?n" "?n < 65533"
    | (eight) "65534 \<le> ?n"
    using bad by fastforce
  then show "Ngrdnt_size (hdr @ c) = Inr (of_nat (length (hdr @ c)))"
  proof cases
    case zero
    then show ?thesis
      using tm sty st by (simp add: Ngrdnt_size_def hdr)
  next
    case one
    then have ne: "c \<noteq> []" by auto
    with one have s: "?st = k_one" using st by simp
    have "(of_nat ?n :: uint64_t) + 2 = of_nat (?n + 2)" by simp
    moreover have "?n + 2 < 256" using one by simp
    ultimately have "(ucast (ucast ((of_nat ?n :: uint64_t) + 2) :: uint8_t) :: uint64_t) = of_nat (?n + 2)"
      by (simp only: ucast8_of_nat)
    then show ?thesis
      using tm sty s one ne
      by (simp add: Ngrdnt_size_def hdr byte_at_def ngrdnt_header_size_st_def store_le_1)
  next
    case two
    then have ne: "c \<noteq> []" by auto
    with two have s: "?st = k_two" using st by simp
    have "(of_nat ?n :: uint64_t) + 3 = of_nat (?n + 3)" by simp
    moreover have "?n + 3 < 65536" using two by simp
    ultimately have "(ucast (ucast (take_bit 16 ((of_nat ?n :: uint64_t) + 3)) :: uint16_t) :: uint64_t)
                       = of_nat (?n + 3)"
      by (simp only: ucast16_of_nat)
    then show ?thesis
      using tm sty s two ne
      by (simp add: Ngrdnt_size_def hdr read_bytes_def ngrdnt_header_size_st_def
          load_le_store_le_ucast)
  next
    case eight
    then have ne: "c \<noteq> []" by auto
    with eight have s: "?st = k_eight" using st by simp
    show ?thesis
      using tm sty s eight ne
      by (simp add: Ngrdnt_size_def hdr read_bytes_def ngrdnt_header_size_st_def
          load_le_store_le_ucast take_bit_word_eq_self)
  qed
qed

lemma size_type_0x9A [simp]: "size_type 0x9A = k_two"
  by (simp add: size_type_def Size_type_cast_def)

lemma build_ngrdnt_zip_0xFFFD: "build_ngrdnt k_zip 0xFFFD = [0x9A, 0x00, 0x00]"
  by (simp add: build_ngrdnt_def size_type_necessary_def ngrdnt_header_size_st_def type_marker_def
      k_zip_def store_le_2)

lemma whole_record_read:
  assumes "whole_record x"
  shows "Ngrdnt_size x = Inr (of_nat (length x))" and "read_bytes x 0 (unat (of_nat (length x) :: uint64_t)) = Inr x"
  using assms by (simp_all add: whole_record_def read_bytes_def unat_of_nat64)

lemma flags_loop_replicate_False:
  "flags_loop (replicate n False @ bs) h ptr = flags_loop bs (h + n) ptr"
  by (induction n arbitrary: h) simp_all

lemma collect_map:
  assumes "\<And>x. x \<in> set xs \<Longrightarrow> f x = Inr (g x)"
  shows "collect f xs = Inr (map g xs)"
  using assms by (induction xs) simp_all

lemma unat_ucast8_64: "unat (ucast (indx :: uint8_t) :: uint64_t) = unat indx"
proof -
  have a: "unat indx < 2 ^ LENGTH(8)" by (rule unsigned_less)
  have "(2::nat) ^ LENGTH(8) \<le> 2 ^ LENGTH(64)" by simp
  with a have b: "unat indx < 2 ^ LENGTH(64)" by (rule order.strict_trans2)
  show ?thesis unfolding unsigned_ucast_eq using b by (rule take_bit_nat_eq_self)
qed

lemma unat_ucast8_plus:
  fixes indx :: uint8_t
  assumes "unat hs \<le> 9"
  shows "unat ((ucast indx :: uint64_t) + hs) = unat indx + unat hs"
proof -
  have "unat indx < 256" using unsigned_less [of indx, where ?'a = nat] by simp
  then show ?thesis using assms by (simp add: unat_word_ariths unat_ucast8_64)
qed

lemma replicate_257: "replicate 257 x = x # replicate 256 x"
proof -
  have "replicate (Suc 256) x = x # replicate 256 x" by (rule replicate_Suc)
  then show ?thesis by simp
qed

lemma set_flag_2048: "set_flag (replicate 257 0) 2048 = Inr (1 # replicate 256 0)"
proof -
  have "(of_nat (drop_bit 3 (2048 :: nat)) :: uint8_t) = 0"
    by (simp add: drop_bit_eq_div)
  then show ?thesis
    by (simp add: set_flag_def replicate_257)
qed

lemma new_ngrdnt_flags_2049:
  "new_ngrdnt_flags (replicate 2048 False @ [True]) =
     Inr (0xA2 # 0x04 # 0x01 # 0x01 # replicate 256 0x00)"
proof -
  have "flags_loop (replicate 2048 False @ [True]) 0 (replicate 257 0) =
        flags_loop [True] 2048 (replicate 257 0)"
    using flags_loop_replicate_False [of 2048 "[True]" 0 "replicate 257 0"] by simp
  also have "\<dots> = Inr (1 # replicate 256 0)"
    by (simp add: set_flag_2048)
  finally have loop: "flags_loop (replicate 2048 False @ [True]) 0 (replicate 257 0) =
                      Inr (1 # replicate 256 0)" .
  have hdr: "build_ngrdnt k_flags 257 = [0xA2, 0x04, 0x01]"
    by (simp add: build_ngrdnt_def size_type_necessary_def ngrdnt_header_size_st_def
        type_marker_def k_flags_def store_le_2)
  show ?thesis
    by (simp add: new_ngrdnt_flags_def INT_MAX_def loop copy_to_ngrdnt_def hdr)
qed

lemma size_type_0xA2 [simp]: "size_type 0xA2 = k_two"
  by (simp add: size_type_def Size_type_cast_def)

lemma to_flags_2049:
  "map_sum id hd (to_flags (0xA2 # 0x04 # 0x01 # 0x01 # replicate 256 0x00)) = Inr True"
proof -
  let ?z = "0xA2 # 0x04 # 0x01 # 0x01 # replicate 256 (0x00 :: uint8_t)"
  let ?g = "\<lambda>h. (?z ! (unat (of_nat (drop_bit 3 h) :: uint8_t) + 3)) AND
                    (push_bit (unat (of_nat (h mod 8) :: uint8_t)) 1 :: uint8_t) \<noteq> 0"
  have tm: "Ngrdnt_type_marker ?z = Inr 0xA2"
    by (simp add: Ngrdnt_type_marker_def byte_at_def)
  have sz: "Ngrdnt_size ?z = Inr 260"
    by (simp add: Ngrdnt_size_def tm read_bytes_def)
  have hs: "ngrdnt_header_size 0xA2 = 3"
    by (simp add: ngrdnt_header_size_def ngrdnt_header_size_st_def)
  have at: "flag_at ?z 3 h = Inr (?g h)" for h
  proof -
    have "unat (of_nat (drop_bit 3 h) :: uint8_t) < 256"
      using unsigned_less [of "of_nat (drop_bit 3 h) :: uint8_t", where ?'a = nat] by simp
    moreover have "unat ((ucast (of_nat (drop_bit 3 h) :: uint8_t) :: uint64_t) + 3) =
          unat (of_nat (drop_bit 3 h) :: uint8_t) + 3"
      using unat_ucast8_plus [of 3 "of_nat (drop_bit 3 h)"] by simp
    ultimately show ?thesis
      by (simp add: flag_at_def byte_at_def Let_def)
  qed
  have "collect (flag_at ?z 3) [0 ..< 2056] = Inr (map ?g [0 ..< 2056])"
    by (rule collect_map) (rule at)
  then have "to_flags ?z = Inr (map ?g [0 ..< 2056])"
    by (simp add: to_flags_def tm sz hs INT_MAX_def)
  moreover have "[0 ..< 2056] = 0 # [Suc 0 ..< 2056]"
    by (rule upt_conv_Cons) simp
  then have "hd (map ?g [0 ..< 2056]) = ?g 0"
    by (simp only: list.map list.sel)
  moreover have "?g 0" by simp
  ultimately show ?thesis by simp
qed

lemma unat_of_nat8: "n < 256 \<Longrightarrow> unat (of_nat n :: uint8_t) = n"
  by (simp add: unat_of_nat)

lemma set_flag_ok:
  assumes "h < 8 * length ptr" and "length ptr \<le> 256"
  shows "set_flag ptr h = Inr (ptr[h div 8 := (ptr ! (h div 8)) OR push_bit (h mod 8) 1])"
proof -
  from assms have "h div 8 < 256" "h div 8 < length ptr" by auto
  moreover have "h mod 8 < 256" by simp
  ultimately show ?thesis
    by (simp add: set_flag_def Let_def drop_bit_eq_div unat_of_nat8)
qed

lemma bit_set_flag:
  fixes b :: uint8_t
  assumes "k < 8"
  shows "bit (b OR push_bit (h mod 8) 1) k \<longleftrightarrow> bit b k \<or> k = h mod 8"
  using assms by (auto simp: bit_simps)

lemma bit_set_flag_exp:
  fixes b :: uint8_t
  assumes "k < 8"
  shows "bit (b OR 2 ^ (h mod 8)) k \<longleftrightarrow> bit b k \<or> k = h mod 8"
  using bit_set_flag [OF assms, of b h] by (simp add: push_bit_of_1)

lemma index_split:
  fixes j k h :: nat
  assumes "k < 8"
  shows "(j = h div 8 \<and> k = h mod 8) \<longleftrightarrow> 8 * j + k = h"
  using assms by auto

lemma flags_loop_bits:
  assumes "h + length bs \<le> 8 * length ptr" and "length ptr \<le> 256"
  shows "\<exists>p. flags_loop bs h ptr = Inr p \<and> length p = length ptr \<and>
             (\<forall>j < length ptr. \<forall>k < 8. bit (p ! j) k \<longleftrightarrow>
                bit (ptr ! j) k \<or> (h \<le> 8 * j + k \<and> 8 * j + k < h + length bs \<and> bs ! (8 * j + k - h)))"
  using assms
proof (induction bs arbitrary: h ptr)
  case Nil
  then show ?case by auto
next
  case (Cons b bs)
  let ?ptr' = "if b then ptr[h div 8 := (ptr ! (h div 8)) OR push_bit (h mod 8) 1] else ptr"
  have len: "length ?ptr' = length ptr" by simp
  have h: "h < 8 * length ptr" using Cons.prems by simp
  have step: "flags_loop (b # bs) h ptr = flags_loop bs (Suc h) ?ptr'"
    using set_flag_ok [OF h Cons.prems(2)] by simp
  have bits': "bit (?ptr' ! j) k \<longleftrightarrow> bit (ptr ! j) k \<or> (b \<and> 8 * j + k = h)"
    if "j < length ptr" "k < 8" for j k
  proof (cases b)
    case False
    then show ?thesis by simp
  next
    case True
    show ?thesis
    proof (cases "j = h div 8")
      case eq: True
      with True that show ?thesis
        using index_split [OF that(2), of j h] by (simp add: bit_set_flag_exp)
    next
      case ne: False
      with True that show ?thesis
        using index_split [OF that(2), of j h] by simp
    qed
  qed
  from Cons.prems have "Suc h + length bs \<le> 8 * length ?ptr'" "length ?ptr' \<le> 256"
    by simp_all
  from Cons.IH [OF this] obtain p where
    p: "flags_loop bs (Suc h) ?ptr' = Inr p" "length p = length ptr"
    and pb: "\<And>j k. j < length ptr \<Longrightarrow> k < 8 \<Longrightarrow> bit (p ! j) k \<longleftrightarrow>
               bit (?ptr' ! j) k \<or>
               (Suc h \<le> 8 * j + k \<and> 8 * j + k < Suc h + length bs \<and> bs ! (8 * j + k - Suc h))"
    unfolding len by blast
  have "bit (p ! j) k \<longleftrightarrow>
          bit (ptr ! j) k \<or>
          (h \<le> 8 * j + k \<and> 8 * j + k < h + length (b # bs) \<and> (b # bs) ! (8 * j + k - h))"
    if "j < length ptr" "k < 8" for j k
  proof (cases "8 * j + k = h")
    case True
    then show ?thesis using pb [OF that] bits' [OF that] by auto
  next
    case False
    have "(b # bs) ! (8 * j + k - h) = bs ! (8 * j + k - Suc h)" if "h \<le> 8 * j + k"
    proof -
      from that False have "8 * j + k - h = Suc (8 * j + k - Suc h)" by simp
      then show ?thesis by (simp only: nth_Cons_Suc)
    qed
    with False show ?thesis using pb [OF that] bits' [OF that] by auto
  qed
  with p step show ?case by auto
qed

lemma build_ngrdnt_payload:
  fixes c :: "uint8_t list"
  assumes IT: "IT AND 0xC0 = 0" and n9: "length c + 9 < 2 ^ 64" and bad: "length c \<noteq> 0xFFFD"
  defines "hdr \<equiv> build_ngrdnt IT (of_nat (length c))"
  shows "whole_record (hdr @ c)" and "Ngrdnt_kind (hdr @ c) = Inr IT"
    and "Ngrdnt_payload (hdr @ c) = Inr c" and "length hdr \<le> 9"
proof -
  let ?t = "type_marker (size_type_necessary (of_nat (length c))) IT"
  note r = build_ngrdnt_record [OF IT n9 bad, folded hdr_def]
  show hl: "length hdr \<le> 9"
    using r(2) by (cases "size_type ?t") (simp_all add: ngrdnt_header_size_def ngrdnt_header_size_st_def)
  show "whole_record (hdr @ c)"
    using r(3) n9 hl by (simp add: whole_record_def)
  show "Ngrdnt_kind (hdr @ c) = Inr IT"
    using r(1) type_marker_split(2) [OF IT] by (simp add: Ngrdnt_kind_def)
  have hs: "ngrdnt_header_size ?t = of_nat (length hdr)"
    using r(2) by simp
  have "(of_nat (length (hdr @ c)) :: uint64_t) - ngrdnt_header_size ?t = of_nat (length c)"
    unfolding hs by simp
  moreover have "unat (of_nat (length c) :: uint64_t) = length c"
    using n9 by (simp add: unat_of_nat64)
  ultimately have "read_bytes (hdr @ c) (unat (ngrdnt_header_size ?t))
      (unat ((of_nat (length (hdr @ c)) :: uint64_t) - ngrdnt_header_size ?t)) = Inr c"
    using r(2) by (simp add: read_bytes_def)
  then show "Ngrdnt_payload (hdr @ c) = Inr c"
    using r(1) r(3) by (simp add: Ngrdnt_payload_def)
qed

lemma and_flag_iff_bit:
  fixes b :: uint8_t
  shows "b AND push_bit (unat (of_nat (h mod 8) :: uint8_t)) 1 \<noteq> 0 \<longleftrightarrow> bit b (h mod 8)"
proof -
  have "h mod 8 < 256" by simp
  then have "unat (of_nat (h mod 8) :: uint8_t) = h mod 8" by (rule unat_of_nat8)
  then show ?thesis
    by (simp add: push_bit_of_1 and_exp_eq_0_iff_not_bit)
qed

lemma to_flags_build:
  fixes p :: "uint8_t list"
  assumes m: "length p \<le> 256"
  shows "to_flags (build_ngrdnt k_flags (of_nat (length p)) @ p) =
           Inr (map (\<lambda>h. bit (p ! (h div 8)) (h mod 8)) [0 ..< 8 * length p])"
proof -
  let ?hdr = "build_ngrdnt k_flags (of_nat (length p))"
  let ?r = "?hdr @ p"
  let ?t = "type_marker (size_type_necessary (of_nat (length p))) k_flags"
  let ?hs = "ngrdnt_header_size ?t"
  have IT: "k_flags AND 0xC0 = 0" by (simp add: k_flags_def)
  have n9: "length p + 9 < 2 ^ 64" and bad: "length p \<noteq> 0xFFFD" using m by simp_all
  note r = build_ngrdnt_record [OF IT n9 bad]
  note hl = build_ngrdnt_payload(4) [OF IT n9 bad]
  have hs: "?hs = of_nat (length ?hdr)" using r(2) by simp
  have hs9: "unat ?hs \<le> 9" using r(2) hl by simp
  have "((of_nat (length ?r) :: uint64_t) - ?hs) * 8 = of_nat (8 * length p)"
    unfolding hs by simp
  moreover have "8 * length p < 2 ^ 64" using m by simp
  then have "unat (of_nat (8 * length p) :: uint64_t) = 8 * length p"
    by (rule unat_of_nat64)
  ultimately have fc: "unat (((of_nat (length ?r) :: uint64_t) - ?hs) * 8) = 8 * length p"
    by (simp only:)
  then have fci: "uint (((of_nat (length ?r) :: uint64_t) - ?hs) * 8) = int (8 * length p)"
    by (metis uint_nat)
  have at: "flag_at ?r ?hs h = Inr (bit (p ! (h div 8)) (h mod 8))"
    if "h \<in> set [0 ..< 8 * length p]" for h
  proof -
    from that have h: "h div 8 < length p" by auto
    with m have "h div 8 < 256" by simp
    then have ix: "unat (of_nat (h div 8) :: uint8_t) = h div 8" by (rule unat_of_nat8)
    have "unat ((ucast (of_nat (h div 8) :: uint8_t) :: uint64_t) + ?hs) = h div 8 + length ?hdr"
      using unat_ucast8_plus [OF hs9, of "of_nat (h div 8)"] ix r(2) by simp
    moreover have "?r ! (h div 8 + length ?hdr) = p ! (h div 8)"
      by (simp add: nth_append)
    ultimately show ?thesis
      using h and_flag_iff_bit [of "p ! (h div 8)" h]
      by (simp add: flag_at_def Let_def byte_at_def drop_bit_eq_div)
  qed
  have "collect (flag_at ?r ?hs) [0 ..< 8 * length p] =
          Inr (map (\<lambda>h. bit (p ! (h div 8)) (h mod 8)) [0 ..< 8 * length p])"
    by (rule collect_map) (rule at)
  moreover have "\<not> INT_MAX < int (8 * length p)"
    using m by (simp add: INT_MAX_def)
  ultimately show ?thesis
    using r(1) r(3) fc fci by (simp add: to_flags_def Let_def)
qed

section \<open>The claims\<close>

text \<open>
  C1 (as amended). A map decoded from a record whose payload is a sequence of entries, each a
  \<open>uint32_t\<close> key and a record, associates every key with the value of its first
  occurrence in the payload: \<open>std::map::insert\<close> keeps the entry it finds.
\<close>

theorem Map_of_Ngrdnt_first_wins:
  assumes "Ngrdnt_type_marker raw = Inr t"
    and "length hdr = unat (ngrdnt_header_size t)"
    and "raw = hdr @ map_entries_bytes es"
    and "whole_record raw"
    and "list_all (\<lambda>e. whole_record (snd e)) es"
  shows "Map_of_Ngrdnt raw = Inr (map_of es)"
proof -
  from assms(4) have sz: "Ngrdnt_size raw = Inr (of_nat (length raw))"
    and un: "unat (of_nat (length raw) :: uint64_t) = length raw"
    by (simp_all add: whole_record_def unat_of_nat)
  have "Map_loop raw (length raw) (length hdr) Map.empty = Inr (map_of es ++ Map.empty)"
    unfolding assms(3) using Map_loop_entries [OF assms(5), of hdr Map.empty] by simp
  then show ?thesis
    using assms(1,2,3) sz un by (simp add: Map_of_Ngrdnt_def)
qed

theorem Map_of_Ngrdnt_first_wins_witness:
  "Ngrdnt_type_marker [0x4D, 0x0C, 7, 0, 0, 0, 0x31, 7, 0, 0, 0, 0x30] = Inr 0x4D \<and>
   length [0x4D, 0x0C :: uint8_t] = unat (ngrdnt_header_size 0x4D) \<and>
   [0x4D, 0x0C, 7, 0, 0, 0, 0x31, 7, 0, 0, 0, 0x30] =
     [0x4D, 0x0C] @ map_entries_bytes [(7, [0x31]), (7, [0x30])] \<and>
   whole_record [0x4D, 0x0C, 7, 0, 0, 0, 0x31, 7, 0, 0, 0, 0x30] \<and>
   list_all (\<lambda>e. whole_record (snd e)) [(7, [0x31]), (7, [0x30])] \<and>
   Map_of_Ngrdnt [0x4D, 0x0C, 7, 0, 0, 0, 0x31, 7, 0, 0, 0, 0x30] =
     Inr (map_of [(7, [0x31]), (7, [0x30])]) \<and>
   map_of [(7 :: uint32_t, [0x31 :: uint8_t]), (7, [0x30])] 7 = Some [0x31]"
proof -
  have h1: "Ngrdnt_type_marker [0x4D, 0x0C, 7, 0, 0, 0, 0x31, 7, 0, 0, 0, 0x30] = Inr 0x4D"
    by (simp add: Ngrdnt_type_marker_def byte_at_def)
  have h2: "length [0x4D, 0x0C :: uint8_t] = unat (ngrdnt_header_size 0x4D)"
    by (simp add: ngrdnt_header_size_def ngrdnt_header_size_st_def)
  have h3: "[0x4D, 0x0C, 7, 0, 0, 0, 0x31, 7, 0, 0, 0, 0x30] =
     [0x4D, 0x0C] @ map_entries_bytes [(7, [0x31]), (7, [0x30])]"
    by (simp add: store_le_numeral store_le_1)
  have h4: "whole_record [0x4D, 0x0C, 7, 0, 0, 0, 0x31, 7, 0, 0, 0, 0x30]"
    by (simp add: whole_record_def Ngrdnt_size_def Ngrdnt_type_marker_def byte_at_def)
  have h5: "list_all (\<lambda>e. whole_record (snd e)) [(7, [0x31]), (7, [0x30])]"
    by (simp add: whole_record_def Ngrdnt_size_def Ngrdnt_type_marker_def byte_at_def
        size_type_def Size_type_cast_def)
  have h6: "map_of [(7 :: uint32_t, [0x31 :: uint8_t]), (7, [0x30])] 7 = Some [0x31]"
    by simp
  show ?thesis
    using h1 h2 h3 h4 h5 h6 Map_of_Ngrdnt_first_wins [OF h1 h2 h3 h4 h5]
    by blast
qed

text \<open>
  C1 as stated fails: in the payload \<open>7 \<mapsto> True, 7 \<mapsto> False\<close> the last occurrence of the
  key \<open>7\<close> is \<open>False\<close> (\<open>0x30\<close>), and the decoded map answers \<open>True\<close> (\<open>0x31\<close>).
\<close>

theorem Map_duplicate_key_counterexample:
  "Map_of_Ngrdnt_at [0x4D, 0x0C, 7, 0, 0, 0, 0x31, 7, 0, 0, 0, 0x30] 7 = Inr [0x31] \<and>
   Map_of_Ngrdnt_at [0x4D, 0x0C, 7, 0, 0, 0, 0x31, 7, 0, 0, 0, 0x30] 7 \<noteq> Inr [0x30]"
  by (simp add: Map_of_Ngrdnt_at_def Map_of_Ngrdnt_def Map_loop.simps Map_index_def std_map_insert_def
      Ngrdnt_clone_def read_bytes_def
      Ngrdnt_type_marker_def byte_at_def ngrdnt_header_size_def ngrdnt_header_size_st_def
      Ngrdnt_size_def size_type_def Size_type_cast_def)

text \<open>
  C3. For every payload length \<open>p\<close>, \<open>size_type_necessary p\<close> is \<open>k_zero\<close> exactly when
  \<open>p = 0\<close>, \<open>k_one\<close> exactly when \<open>0 < p < 0xFE\<close>, \<open>k_two\<close> exactly when
  \<open>0xFE \<le> p < 0xFFFE\<close>, and \<open>k_eight\<close> exactly when \<open>p \<ge> 0xFFFE\<close>.
\<close>

theorem size_type_necessary_classes:
  "(size_type_necessary p = k_zero \<longleftrightarrow> p = 0) \<and>
   (size_type_necessary p = k_one \<longleftrightarrow> 0 < p \<and> p < 0xFE) \<and>
   (size_type_necessary p = k_two \<longleftrightarrow> 0xFE \<le> p \<and> p < 0xFFFE) \<and>
   (size_type_necessary p = k_eight \<longleftrightarrow> 0xFFFE \<le> p)"
  unfolding size_type_necessary_def word_less_nat_alt word_le_nat_alt
  by (auto simp: unat_gt_0)

text \<open>
  C6. \<open>size()\<close> of a record that holds its header is \<open>1\<close> when the size class of the
  marker is \<open>k_zero\<close>, and otherwise the little-endian unsigned integer of 1, 2 or 8
  bytes (for \<open>k_one\<close>, \<open>k_two\<close>, \<open>k_eight\<close>) that starts at offset 1.
\<close>

theorem Ngrdnt_size_little_endian:
  assumes "Ngrdnt_type_marker d = Inr t"
    and "unat (ngrdnt_header_size t) \<le> length d"
  shows "Ngrdnt_size d =
           Inr (if size_type t = k_zero then 1
                else of_nat (le_uint (take (length_bytes (size_type t)) (drop 1 d))))"
proof (cases "size_type t")
  case k_zero
  then show ?thesis using assms by (simp add: Ngrdnt_size_def)
next
  case k_one
  with assms have len: "2 \<le> length d"
    by (simp add: ngrdnt_header_size_def ngrdnt_header_size_st_def)
  then have "take 1 (drop 1 d) = [d ! 1]"
    by (cases d; cases "tl d"; simp)
  with k_one len assms show ?thesis
    by (simp add: Ngrdnt_size_def byte_at_def)
next
  case k_two
  with assms have len: "3 \<le> length d"
    by (simp add: ngrdnt_header_size_def ngrdnt_header_size_st_def)
  then have "length (take 2 (drop 1 d)) = 2" by simp
  then have "(ucast (load_le (take 2 (drop 1 d)) :: uint16_t) :: uint64_t)
               = of_nat (le_uint (take 2 (drop 1 d)))"
    by (rule ucast16_load_le)
  with k_two len assms show ?thesis
    by (simp add: Ngrdnt_size_def read_bytes_def)
next
  case k_eight
  with assms have len: "9 \<le> length d"
    by (simp add: ngrdnt_header_size_def ngrdnt_header_size_st_def)
  with k_eight assms show ?thesis
    by (simp add: Ngrdnt_size_def read_bytes_def load_le_of_nat)
qed

theorem Ngrdnt_size_little_endian_witness:
  "Ngrdnt_type_marker [0xB3, 0x05, 0x01, 0x41, 0x42] = Inr 0xB3 \<and>
   unat (ngrdnt_header_size 0xB3) \<le> length [0xB3, 0x05, 0x01, 0x41, 0x42 :: uint8_t] \<and>
   Ngrdnt_size [0xB3, 0x05, 0x01, 0x41, 0x42] = Inr 261"
  using Ngrdnt_size_little_endian [of "[0xB3, 0x05, 0x01, 0x41, 0x42]" "0xB3"]
  by (simp add: Ngrdnt_type_marker_def byte_at_def ngrdnt_header_size_def ngrdnt_header_size_st_def)

text \<open>
  C7. When the kind of the marker is not the one a decoder expects, \<open>to_double\<close>,
  \<open>to_int32\<close>, \<open>to_int64\<close> and \<open>to_uint64\<close> return zero and no error (the double
  \<open>0.0\<close> is the word \<open>0\<close>); when it is, and the record holds the value behind its header,
  each returns the little-endian value of its native width stored there.
\<close>

theorem decoders_coerce:
  assumes "Ngrdnt_type_marker val = Inr t"
  shows "(ngrdnt_type t \<noteq> k_float \<longrightarrow> to_double val = Inr 0) \<and>
         (ngrdnt_type t \<noteq> k_int32 \<longrightarrow> to_int32 val = Inr 0) \<and>
         (ngrdnt_type t \<noteq> k_int64 \<longrightarrow> to_int64 val = Inr 0) \<and>
         (ngrdnt_type t \<noteq> k_uint64 \<longrightarrow> to_uint64 val = Inr 0) \<and>
         (ngrdnt_type t = k_float \<and> unat (ngrdnt_header_size t) + 8 \<le> length val \<longrightarrow>
            to_double val = Inr (of_nat (le_uint (take 8 (drop (unat (ngrdnt_header_size t)) val))))) \<and>
         (ngrdnt_type t = k_int32 \<and> unat (ngrdnt_header_size t) + 4 \<le> length val \<longrightarrow>
            to_int32 val = Inr (of_nat (le_uint (take 4 (drop (unat (ngrdnt_header_size t)) val))))) \<and>
         (ngrdnt_type t = k_int64 \<and> unat (ngrdnt_header_size t) + 8 \<le> length val \<longrightarrow>
            to_int64 val = Inr (of_nat (le_uint (take 8 (drop (unat (ngrdnt_header_size t)) val))))) \<and>
         (ngrdnt_type t = k_uint64 \<and> unat (ngrdnt_header_size t) + 8 \<le> length val \<longrightarrow>
            to_uint64 val = Inr (of_nat (le_uint (take 8 (drop (unat (ngrdnt_header_size t)) val)))))"
  using assms
  by (auto simp: to_double_def to_int32_def to_int64_def to_uint64_def ngrdnt_data_def deref_def
      read_bytes_def load_le_of_nat)

theorem decoders_coerce_witness:
  "Ngrdnt_type_marker [0x69, 6, 0xF0, 0xF0, 0xF0, 0xF1] = Inr 0x69 \<and>
   ngrdnt_type 0x69 = k_int32 \<and>
   to_int32 [0x69, 6, 0xF0, 0xF0, 0xF0, 0xF1] = Inr 0xF1F0F0F0 \<and>
   to_double [0x69, 6, 0xF0, 0xF0, 0xF0, 0xF1] = Inr 0 \<and>
   to_int64 [0x69, 6, 0xF0, 0xF0, 0xF0, 0xF1] = Inr 0 \<and>
   to_uint64 [0x69, 6, 0xF0, 0xF0, 0xF0, 0xF1] = Inr 0 \<and>
   Ngrdnt_type_marker [0x64, 10, 0, 0, 0, 0, 0, 0, 0xF0, 0x3F] = Inr 0x64 \<and>
   ngrdnt_type 0x64 = k_float \<and>
   to_double [0x64, 10, 0, 0, 0, 0, 0, 0, 0xF0, 0x3F] = Inr 0x3FF0000000000000 \<and>
   to_int32 [0x64, 10, 0, 0, 0, 0, 0, 0, 0xF0, 0x3F] = Inr 0 \<and>
   Ngrdnt_type_marker [0x6C, 10, 1, 2, 3, 4, 5, 6, 7, 8] = Inr 0x6C \<and>
   ngrdnt_type 0x6C = k_int64 \<and>
   to_int64 [0x6C, 10, 1, 2, 3, 4, 5, 6, 7, 8] = Inr 0x0807060504030201 \<and>
   Ngrdnt_type_marker [0x75, 10, 1, 2, 3, 4, 5, 6, 7, 8] = Inr 0x75 \<and>
   ngrdnt_type 0x75 = k_uint64 \<and>
   to_uint64 [0x75, 10, 1, 2, 3, 4, 5, 6, 7, 8] = Inr 0x0807060504030201"
  using decoders_coerce [of "[0x69, 6, 0xF0, 0xF0, 0xF0, 0xF1]" "0x69"]
    decoders_coerce [of "[0x64, 10, 0, 0, 0, 0, 0, 0, 0xF0, 0x3F]" "0x64"]
    decoders_coerce [of "[0x6C, 10, 1, 2, 3, 4, 5, 6, 7, 8]" "0x6C"]
    decoders_coerce [of "[0x75, 10, 1, 2, 3, 4, 5, 6, 7, 8]" "0x75"]
  by (simp add: Ngrdnt_type_marker_def byte_at_def ngrdnt_type_eval Ngrdnt_type_defs
      ngrdnt_header_size_def ngrdnt_header_size_st_def size_type_def Size_type_cast_def)

text \<open>
  C9. \<open>xlate\<close> of names returns a list as long as its argument, with \<open>0\<close> for every name
  that the index of the glossary does not have; \<open>xlate\<close> of keys returns a list as long as
  its argument, with the empty string for every key that is not below the number of names.
\<close>

theorem xlate_unknown:
  "length (xlate_names g ns) = length ns \<and>
   (\<forall>i < length ns. index g (ns ! i) = None \<longrightarrow> xlate_names g ns ! i = 0) \<and>
   length (xlate_keys g keys) = length keys \<and>
   (\<forall>i < length keys. length (names g) \<le> unat (keys ! i) \<longrightarrow> xlate_keys g keys ! i = [])"
  by (simp add: xlate_names_def xlate_keys_def)

theorem xlate_unknown_witness:
  "index \<lparr>names = [''first'', ''second''], index = [''first'' \<mapsto> 0, ''second'' \<mapsto> 1]\<rparr> ''unknown'' = None \<and>
   xlate_names \<lparr>names = [''first'', ''second''], index = [''first'' \<mapsto> 0, ''second'' \<mapsto> 1]\<rparr>
     [''second'', ''unknown''] = [1, 0] \<and>
   length (names \<lparr>names = [''first'', ''second''], index = [''first'' \<mapsto> 0, ''second'' \<mapsto> 1]\<rparr>) \<le> unat (99 :: uint32_t) \<and>
   xlate_keys \<lparr>names = [''first'', ''second''], index = [''first'' \<mapsto> 0, ''second'' \<mapsto> 1]\<rparr>
     [1, 99] = [''second'', []]"
  using xlate_unknown [of "\<lparr>names = [''first'', ''second''], index = [''first'' \<mapsto> 0, ''second'' \<mapsto> 1]\<rparr>"
      "[''second'', ''unknown'']" "[1, 99]"]
  by (simp add: xlate_names_def xlate_keys_def)

text \<open>
  C10. With no steps, \<open>Recipe::ngrdnt\<close> returns \<open>k_not_found\<close>, for which \<open>is_null\<close>
  holds, whatever the recipe is.
\<close>

theorem Recipe_ngrdnt_no_steps:
  "Recipe_ngrdnt sn r [] = Some (Inr k_not_found) \<and> is_null k_not_found = Inr True"
  by (simp add: Recipe_ngrdnt_def is_null_def k_not_found_def Ngrdnt_make_def Ngrdnt_type_marker_def
      byte_at_def type_marker_def ngrdnt_type_def k_null_def)

text \<open>
  C5. The library \<open>["Testing", "Testing.", "Third"]\<close> is encoded as the bytes
  \<open>4C 1C 73 09 Testing 73 0A Testing. 73 07 Third\<close>, and these bytes are decoded to the same
  three strings in the same order.
\<close>

theorem Library_round_trip_example:
  "new_ngrdnt_Library [''Testing'', ''Testing.'', ''Third''] =
     Inr ([0x4C, 0x1C, 0x73, 0x09] @ map of_char ''Testing'' @ [0x73, 0x0A] @ map of_char ''Testing.'' @
          [0x73, 0x07] @ map of_char ''Third'') \<and>
   Library_of_Ngrdnt fmt
     ([0x4C, 0x1C, 0x73, 0x09] @ map of_char ''Testing'' @ [0x73, 0x0A] @ map of_char ''Testing.'' @
      [0x73, 0x07] @ map of_char ''Third'') =
     Some (Inr [''Testing'', ''Testing.'', ''Third''])"
proof
  show "new_ngrdnt_Library [''Testing'', ''Testing.'', ''Third''] =
     Inr ([0x4C, 0x1C, 0x73, 0x09] @ map of_char ''Testing'' @ [0x73, 0x0A] @ map of_char ''Testing.'' @
          [0x73, 0x07] @ map of_char ''Third'')"
    by (simp add: store_le_numeral store_le_1 new_ngrdnt_Library_def new_ngrdnt_children_def new_ngrdnt_string_def
        copy_to_ngrdnt_def build_ngrdnt_def size_type_necessary_def ngrdnt_header_size_st_def
        type_marker_def k_string_def k_library_def Ngrdnt_size_def Ngrdnt_type_marker_def byte_at_def
        read_bytes_def size_type_def Size_type_cast_def)
next
  show "Library_of_Ngrdnt fmt
     ([0x4C, 0x1C, 0x73, 0x09] @ map of_char ''Testing'' @ [0x73, 0x0A] @ map of_char ''Testing.'' @
      [0x73, 0x07] @ map of_char ''Third'') =
     Some (Inr [''Testing'', ''Testing.'', ''Third''])"
    by (simp add: Library_of_Ngrdnt_def Basic_container_of_Ngrdnt_def Basic_container_loop.simps
        Ngrdnt_clone_def to_string_def ngrdnt_header_size_def ngrdnt_header_size_st_def
        ngrdnt_type_def Ngrdnt_type_defs char_of_def bit_0 Ngrdnt_size_def Ngrdnt_type_marker_def byte_at_def
        read_bytes_def size_type_def Size_type_cast_def)
qed

text \<open>
  C2. The first step of \<open>Recipe::ngrdnt\<close> indexes the root container unchecked: on a
  recipe whose root has one child, the step \<open>1\<close> reads past the children and the result is
  not \<open>k_not_found\<close>.
\<close>

theorem Recipe_ngrdnt_first_step_out_of_range:
  "Recipe_ngrdnt sn \<lparr>container = [Ngrdnt_make], glossary = g\<rparr> [1] = Some (Inl Out_of_bounds) \<and>
   Recipe_ngrdnt sn \<lparr>container = [Ngrdnt_make], glossary = g\<rparr> [1] \<noteq> Some (Inr k_not_found)"
  by (simp add: Recipe_ngrdnt_def Basic_container_index_def)

text \<open>
  The same holds of every recipe and every first step that is not below the number of children
  of the root. Inside the loop the step is checked: a container reached there answers a step
  that is not below its number of children with \<open>k_not_found\<close>.
\<close>

lemma Recipe_ngrdnt_first_step_unchecked:
  assumes "length (container r) \<le> unat step"
  shows "Recipe_ngrdnt sn r (step # rest) = Some (Inl Out_of_bounds)"
  using assms by (simp add: Recipe_ngrdnt_def Basic_container_index_def)

lemma ngrdnt_loop_container_out_of_range:
  assumes "Ngrdnt_type_marker retval = Inr t" and "ngrdnt_type t = k_container"
    and "Container_of_Ngrdnt retval = Some (Inr tmp)" and "length tmp \<le> unat step"
  shows "ngrdnt_loop sn (step # rest) retval = Some (Inr k_not_found)"
  using assms by (subst ngrdnt_loop.simps) simp

text \<open>
  C4. Where the compressed image of a record is \<open>0xFFFD\<close> bytes long, the round trip
  through \<open>new_ngrdnt(const Compressed&)\<close> and \<open>Compressed(const Ngrdnt::Ptr&)\<close> does
  not give the record back: \<open>size_type_necessary\<close> answers \<open>k_two\<close>, the total size
  \<open>0x10000\<close> does not fit the two length bytes, the Zip record says its size is \<open>0\<close>,
  and the decoder reads past the buffer.
\<close>

theorem zip_round_trip_fails_at_0xFFFD:
  assumes "whole_record x" and "length (RawCompress sn x) = 0xFFFD"
  shows "new_ngrdnt_Compressed sn x = Inr ([0x9A, 0x00, 0x00] @ RawCompress sn x) \<and>
         Ngrdnt_size ([0x9A, 0x00, 0x00] @ RawCompress sn x) = Inr 0 \<and>
         zip_round_trip sn x = Inl Out_of_bounds"
proof -
  let ?c = "RawCompress sn x"
  let ?z = "0x9A # 0x00 # 0x00 # ?c"
  have enc: "new_ngrdnt_Compressed sn x = Inr ?z"
    using whole_record_read [OF assms(1)] assms(2)
    by (simp add: new_ngrdnt_Compressed_def build_ngrdnt_zip_0xFFFD)
  have tm: "Ngrdnt_type_marker ?z = Inr 0x9A"
    by (simp add: Ngrdnt_type_marker_def byte_at_def)
  have sz: "Ngrdnt_size ?z = Inr 0"
    by (simp add: Ngrdnt_size_def tm read_bytes_def)
  have "unat (0 - ngrdnt_header_size 0x9A) = 18446744073709551613"
    by (simp add: ngrdnt_header_size_def ngrdnt_header_size_st_def)
  then have "Compressed_of_Ngrdnt sn ?z = Inl Out_of_bounds"
    using assms(2) by (simp add: Compressed_of_Ngrdnt_def tm sz read_bytes_def)
  with enc sz show ?thesis
    by (simp add: zip_round_trip_def)
qed

theorem zip_round_trip_fails_at_0xFFFD_witness:
  "whole_record ([0xB3, 0xFD, 0xFF] @ replicate 65530 0x61) \<and>
   length (RawCompress stored ([0xB3, 0xFD, 0xFF] @ replicate 65530 0x61)) = 0xFFFD \<and>
   snappy_round_trip stored ([0xB3, 0xFD, 0xFF] @ replicate 65530 0x61) \<and>
   new_ngrdnt_Compressed stored ([0xB3, 0xFD, 0xFF] @ replicate 65530 0x61) =
     Inr ([0x9A, 0x00, 0x00] @ [0xB3, 0xFD, 0xFF] @ replicate 65530 0x61) \<and>
   zip_round_trip stored ([0xB3, 0xFD, 0xFF] @ replicate 65530 0x61) = Inl Out_of_bounds"
proof -
  let ?x = "[0xB3, 0xFD, 0xFF] @ replicate 65530 (0x61 :: uint8_t)"
  have h1: "whole_record ?x"
    by (simp add: whole_record_def Ngrdnt_size_def Ngrdnt_type_marker_def byte_at_def read_bytes_def)
  have h2: "length (RawCompress stored ?x) = 0xFFFD"
    by (simp add: stored_def)
  have h3: "snappy_round_trip stored ?x"
    by (simp add: snappy_round_trip_def stored_def)
  have h4: "RawCompress stored ?x = ?x"
    by (simp add: stored_def)
  show ?thesis
    using h1 h2 h3 zip_round_trip_fails_at_0xFFFD [OF h1 h2]
    unfolding h4 by blast
qed

text \<open>
  For every other length of the compressed image the claim holds: the Zip record is whole,
  its payload is the compressed image of the record, and decoding gives the record back.
\<close>

lemma zip_round_trip_ok:
  assumes x: "whole_record x" and sn: "snappy_round_trip sn x"
    and n9: "length (RawCompress sn x) + 9 < 2 ^ 64"
    and bad: "length (RawCompress sn x) \<noteq> 0xFFFD"
  shows "\<exists>z. new_ngrdnt_Compressed sn x = Inr z \<and> whole_record z \<and> Ngrdnt_kind z = Inr k_zip \<and>
             Ngrdnt_payload z = Inr (RawCompress sn x) \<and> Compressed_of_Ngrdnt sn z = Inr x"
proof -
  let ?c = "RawCompress sn x"
  let ?hdr = "build_ngrdnt k_zip (of_nat (length ?c))"
  let ?t = "type_marker (size_type_necessary (of_nat (length ?c))) k_zip"
  have IT: "k_zip AND 0xC0 = 0" by (simp add: k_zip_def)
  note r = build_ngrdnt_record [OF IT n9 bad]
  have enc: "new_ngrdnt_Compressed sn x = Inr (?hdr @ ?c)"
    using whole_record_read [OF x] by (simp add: new_ngrdnt_Compressed_def Let_def)
  have hl: "length ?hdr \<le> 9"
    using r(2) by (cases "size_type ?t") (simp_all add: ngrdnt_header_size_def ngrdnt_header_size_st_def)
  have w: "whole_record (?hdr @ ?c)"
    using r(3) n9 hl by (simp add: whole_record_def)
  have kind: "Ngrdnt_kind (?hdr @ ?c) = Inr k_zip"
    using r(1) type_marker_split(2) [OF IT] by (simp add: Ngrdnt_kind_def)
  have hs: "ngrdnt_header_size ?t = of_nat (length ?hdr)"
    using r(2) by simp
  have "(of_nat (length (?hdr @ ?c)) :: uint64_t) - ngrdnt_header_size ?t = of_nat (length ?c)"
    unfolding hs by simp
  moreover have "unat (of_nat (length ?c) :: uint64_t) = length ?c"
    using n9 by (simp add: unat_of_nat64)
  ultimately have pay: "read_bytes (?hdr @ ?c) (unat (ngrdnt_header_size ?t))
      (unat ((of_nat (length (?hdr @ ?c)) :: uint64_t) - ngrdnt_header_size ?t)) = Inr ?c"
    using r(2) by (simp add: read_bytes_def)
  have payload: "Ngrdnt_payload (?hdr @ ?c) = Inr ?c"
    using r(1) r(3) pay by (simp add: Ngrdnt_payload_def)
  have dec: "Compressed_of_Ngrdnt sn (?hdr @ ?c) = Inr x"
    using r(1) r(3) pay sn by (simp add: Compressed_of_Ngrdnt_def snappy_round_trip_def Let_def)
  from enc w kind payload dec show ?thesis by blast
qed

text \<open>
  C8. The byte index of a flag is kept in a \<open>uint8_t\<close>, in the encoder and in the decoder,
  and wraps at 256 bytes: of 2049 flags of which only the last is set, the encoder sets bit 0
  of payload byte 0 (not of byte 256), and the decoder answers that the first flag is set.
\<close>

theorem flags_index_wraps_at_2048:
  "new_ngrdnt_flags (replicate 2048 False @ [True]) =
     Inr ([0xA2, 0x04, 0x01] @ [0x01] @ replicate 256 0x00) \<and>
   map_sum id hd (flags_round_trip (replicate 2048 False @ [True])) = Inr True \<and>
   hd (replicate 2048 False @ [True]) = False"
proof -
  have "hd (replicate 2048 False @ [True]) = hd (replicate 2048 False)"
    by (rule hd_append2) simp
  also have "\<dots> = False"
    by (rule hd_replicate) simp
  finally show ?thesis
    using to_flags_2049 by (simp add: flags_round_trip_def new_ngrdnt_flags_2049)
qed

text \<open>
  Up to 2048 flags the claim holds: the payload has \<open>ceil(|v| / 8)\<close> bytes, flag \<open>i\<close> is
  bit \<open>i mod 8\<close> of payload byte \<open>i div 8\<close>, and \<open>to_flags\<close> returns the flags followed
  by the padding, all false, up to eight times the number of payload bytes.
\<close>

lemma flags_round_trip_ok:
  assumes n: "length v \<le> 2048"
  shows "\<exists>r p. new_ngrdnt_flags v = Inr r \<and> Ngrdnt_kind r = Inr k_flags \<and>
           Ngrdnt_payload r = Inr p \<and> length p = (length v + 7) div 8 \<and>
           (\<forall>i < length v. bit (p ! (i div 8)) (i mod 8) \<longleftrightarrow> v ! i) \<and>
           flags_round_trip v = Inr (v @ replicate (8 * length p - length v) False)"
proof -
  let ?m = "(length v div 8) + (if length v mod 8 = 0 then 0 else 1)"
  have m: "?m = (length v + 7) div 8" by presburger
  have m256: "?m \<le> 256" using n by presburger
  have "length v \<le> 8 * ?m" by presburger
  then have cover: "0 + length v \<le> 8 * length (replicate ?m (0 :: uint8_t))" by simp
  have "length (replicate ?m (0 :: uint8_t)) \<le> 256" using m256 by simp
  from flags_loop_bits [OF cover this] obtain p where
    loop: "flags_loop v 0 (replicate ?m 0) = Inr p" and lp: "length p = ?m"
    and bits: "\<And>j k. j < ?m \<Longrightarrow> k < 8 \<Longrightarrow>
                 bit (p ! j) k \<longleftrightarrow> 8 * j + k < length v \<and> v ! (8 * j + k)"
    by auto
  have bit_at: "bit (p ! (i div 8)) (i mod 8) \<longleftrightarrow> i < length v \<and> v ! i" if "i < 8 * ?m" for i
  proof -
    from that have "i div 8 < ?m" by auto
    from bits [OF this, of "i mod 8"] show ?thesis by simp
  qed
  let ?r = "build_ngrdnt k_flags (of_nat (length p)) @ p"
  have IT: "k_flags AND 0xC0 = 0" by (simp add: k_flags_def)
  have p256: "length p \<le> 256" using lp m256 by simp
  then have n9: "length p + 9 < 2 ^ 64" and bad: "length p \<noteq> 0xFFFD" by simp_all
  have "\<not> INT_MAX < int (length v)" using n by (simp add: INT_MAX_def)
  then have enc: "new_ngrdnt_flags v = Inr ?r"
    using loop by (simp add: new_ngrdnt_flags_def Let_def copy_to_ngrdnt_def)
  have le: "length v \<le> 8 * length p" unfolding lp by presburger
  have "map (\<lambda>h. bit (p ! (h div 8)) (h mod 8)) [0 ..< 8 * length p] =
          v @ replicate (8 * length p - length v) False"
  proof (rule nth_equalityI)
    show "length (map (\<lambda>h. bit (p ! (h div 8)) (h mod 8)) [0 ..< 8 * length p]) =
            length (v @ replicate (8 * length p - length v) False)"
      using le by simp
  next
    fix i
    assume "i < length (map (\<lambda>h. bit (p ! (h div 8)) (h mod 8)) [0 ..< 8 * length p])"
    then have i: "i < 8 * length p" by simp
    then have "bit (p ! (i div 8)) (i mod 8) \<longleftrightarrow> i < length v \<and> v ! i"
      using bit_at [of i] lp by simp
    then show "map (\<lambda>h. bit (p ! (h div 8)) (h mod 8)) [0 ..< 8 * length p] ! i =
                 (v @ replicate (8 * length p - length v) False) ! i"
      using i by (simp add: nth_append)
  qed
  then have dec: "to_flags ?r = Inr (v @ replicate (8 * length p - length v) False)"
    using to_flags_build [OF p256] by simp
  have "\<forall>i < length v. bit (p ! (i div 8)) (i mod 8) \<longleftrightarrow> v ! i"
    using bit_at le lp by auto
  with enc dec build_ngrdnt_payload(2,3) [OF IT n9 bad] lp m show ?thesis
    by (auto simp: flags_round_trip_def)
qed

end
